theory Spec2Isabelle
  imports
    Main
    "HOL-Library.Word"
    "HOL-Library.Multiset"
    "HOL-Library.Char_ord"
    "HOL-Library.List_Lexorder"
begin

unbundle bit_operations_syntax

section \<open>The data model of package ftp\<close>

text \<open>
  Package ftp exposes an FTP connection of \<^verbatim>\<open>github.com/jlaffaye/ftp\<close> as an
  \<^verbatim>\<open>io/fs.FS\<close>. The protocol client is a collaborator, not part of the package: its
  \<^verbatim>\<open>Entry\<close> is the struct below, its \<^verbatim>\<open>EntryType\<close> is a Go \<^verbatim>\<open>int\<close> with the three
  constants \<^verbatim>\<open>EntryTypeFile\<close>, \<^verbatim>\<open>EntryTypeFolder\<close>, \<^verbatim>\<open>EntryTypeLink\<close> (iota, so 0, 1, 2),
  and every other integer is a value of the type too. \<^verbatim>\<open>Size\<close> is a \<^verbatim>\<open>uint64\<close>. A
  \<^verbatim>\<open>time.Time\<close> is kept as an integer instant; no operation of the package looks into it.
\<close>

type_synonym byte = "8 word"
type_synonym uint64 = "64 word"
type_synonym EntryType = int
type_synonym Time = int

definition EntryTypeFile :: EntryType where "EntryTypeFile = 0"
definition EntryTypeFolder :: EntryType where "EntryTypeFolder = 1"
definition EntryTypeLink :: EntryType where "EntryTypeLink = 2"

record Entry =
  Name :: string
  Target :: string
  Type :: EntryType
  Size :: uint64
  Time :: Time

text \<open>
  \<^verbatim>\<open>fs.FileMode\<close> is a \<^verbatim>\<open>uint32\<close>; the mode bits are those of \<^verbatim>\<open>io/fs\<close>:
  \<^verbatim>\<open>ModeDir = 1 << 31\<close>, \<^verbatim>\<open>ModeSymlink = 1 << 27\<close>, and \<^verbatim>\<open>ModeType\<close> is the mask of the
  type bits. \<^verbatim>\<open>IsRegular\<close> and \<^verbatim>\<open>IsDir\<close> are the methods of \<^verbatim>\<open>FileMode\<close>.
\<close>

type_synonym FileMode = "32 word"

definition ModeDir :: FileMode where "ModeDir = push_bit 31 1"
definition ModeSymlink :: FileMode where "ModeSymlink = push_bit 27 1"
definition ModeDevice :: FileMode where "ModeDevice = push_bit 26 1"
definition ModeNamedPipe :: FileMode where "ModeNamedPipe = push_bit 25 1"
definition ModeSocket :: FileMode where "ModeSocket = push_bit 24 1"
definition ModeCharDevice :: FileMode where "ModeCharDevice = push_bit 21 1"
definition ModeIrregular :: FileMode where "ModeIrregular = push_bit 19 1"

definition ModeType :: FileMode where
  "ModeType = ModeDir OR ModeSymlink OR ModeNamedPipe OR ModeSocket OR ModeDevice
     OR ModeCharDevice OR ModeIrregular"

definition FileMode_IsRegular :: "FileMode \<Rightarrow> bool" where
  "FileMode_IsRegular m \<longleftrightarrow> m AND ModeType = 0"

definition FileMode_IsDir :: "FileMode \<Rightarrow> bool" where
  "FileMode_IsDir m \<longleftrightarrow> m AND ModeDir \<noteq> 0"

subsection \<open>fileinfo\<close>

text \<open>
  \<^verbatim>\<open>type fileinfo struct { e jlaftp.Entry }\<close>. A panic is a result of its own kind: it
  is not an \<^verbatim>\<open>error\<close> value handed back to the caller. \<^verbatim>\<open>Mode\<close> panics with the
  formatted \<^verbatim>\<open>fileinfo\<close>; the model keeps the value that is formatted.
\<close>

datatype fileinfo = fileinfo (info_e: Entry)

datatype panic = Panic fileinfo

definition fileinfo_Name :: "fileinfo \<Rightarrow> string" where
  "fileinfo_Name info = Name (info_e info)"

text \<open>
  \<^verbatim>\<open>return int64(info.e.Size)\<close>: the conversion keeps the 64 bits and reads them as two's
  complement, which is \<open>sint\<close> on a word.
\<close>

definition fileinfo_Size :: "fileinfo \<Rightarrow> int" where
  "fileinfo_Size info = sint (Size (info_e info))"

definition fileinfo_Mode :: "fileinfo \<Rightarrow> panic + FileMode" where
  "fileinfo_Mode info =
     (if Type (info_e info) = EntryTypeFile then Inr 0
      else if Type (info_e info) = EntryTypeFolder then Inr ModeDir
      else if Type (info_e info) = EntryTypeLink then Inr ModeSymlink
      else Inl (Panic info))"

definition fileinfo_ModTime :: "fileinfo \<Rightarrow> Time" where
  "fileinfo_ModTime info = Time (info_e info)"

definition fileinfo_IsDir :: "fileinfo \<Rightarrow> bool" where
  "fileinfo_IsDir info \<longleftrightarrow> Type (info_e info) = EntryTypeFolder"

definition fileinfo_Sys :: "fileinfo \<Rightarrow> Entry" where
  "fileinfo_Sys info = info_e info"

subsection \<open>Errors\<close>

text \<open>
  Go's \<^verbatim>\<open>error\<close> values as the package meets and builds them: the sentinel
  \<^verbatim>\<open>io.EOF\<close>; a failure reported by the protocol client or the transport (opaque to
  the package, kept as its text); \<^verbatim>\<open>errors.Errorf("%s %+v", base, derefed)\<close> of
  \<^verbatim>\<open>github.com/pkg/errors\<close>, kept as the two values it formats; and
  \<^verbatim>\<open>errors.Wrap(err, message)\<close>, which keeps its cause and adds a message (and a stack
  trace, which is not modelled). \<^verbatim>\<open>err == io.EOF\<close> compares with the sentinel itself, so
  a wrapped \<^verbatim>\<open>io.EOF\<close> is a different value. \<^verbatim>\<open>Wrap\<close> is only ever called on a non-nil
  error in this package.
\<close>

datatype error =
    EOF
  | ClientError string
  | Errorf string "Entry list"
  | Wrap error string

text \<open>The messages attached along the cause chain of an error, outermost first.\<close>

fun context_messages :: "error \<Rightarrow> string list" where
  "context_messages (Wrap err msg) = msg # context_messages err"
| "context_messages err = []"

text \<open>\<^verbatim>\<open>errors.Cause\<close>: the innermost error of the chain.\<close>

fun Cause :: "error \<Rightarrow> error" where
  "Cause (Wrap err msg) = Cause err"
| "Cause err = err"

subsection \<open>The response stream of the protocol client\<close>

text \<open>
  \<^verbatim>\<open>*jlaftp.Response\<close> is the data connection of one retrieve: an \<^verbatim>\<open>io.ReadCloser\<close> of
  the protocol client. It is modelled by what it will still deliver: a sequence of
  segments, each a run of bytes and the status the stream reports with the last of them
  (\<open>None\<close> for nil). When nothing is left, \<^verbatim>\<open>Read\<close> reports \<^verbatim>\<open>io.EOF\<close>. \<open>close_status\<close>
  is what \<^verbatim>\<open>Close\<close> will answer. \<open>issued\<close> records the calls made on the stream, oldest
  first, each \<^verbatim>\<open>Read\<close> with what it returned.
\<close>

datatype stream_call = CallRead nat "error option" | CallClose

record Response =
  segments :: "(byte list \<times> error option) list"
  close_status :: "error option"
  issued :: "stream_call list"

text \<open>
  \<^verbatim>\<open>Read(b)\<close> fills a prefix of the buffer \<open>b\<close> and returns the count, the status, the
  buffer and the stream. A segment longer than the buffer is delivered in part, with
  status nil.
\<close>

definition Response_Read ::
  "Response \<Rightarrow> byte list \<Rightarrow> nat \<times> error option \<times> byte list \<times> Response" where
  "Response_Read r b =
     (case segments r of
        [] \<Rightarrow> (0, Some EOF, b, r\<lparr>issued := issued r @ [CallRead 0 (Some EOF)]\<rparr>)
      | (bs, st) # rest \<Rightarrow>
          if length bs \<le> length b
          then (length bs, st, bs @ drop (length bs) b,
                r\<lparr>segments := rest, issued := issued r @ [CallRead (length bs) st]\<rparr>)
          else (length b, None, take (length b) bs,
                r\<lparr>segments := (drop (length b) bs, st) # rest,
                  issued := issued r @ [CallRead (length b) None]\<rparr>))"

definition Response_Close :: "Response \<Rightarrow> error option \<times> Response" where
  "Response_Close r = (close_status r, r\<lparr>issued := issued r @ [CallClose]\<rparr>)"

text \<open>
  \<^verbatim>\<open>io.Copy(io.Discard, src)\<close>: \<^verbatim>\<open>io.Discard\<close> is an \<^verbatim>\<open>io.ReaderFrom\<close> and the response is
  no \<^verbatim>\<open>io.WriterTo\<close>, so the copy is \<^verbatim>\<open>discard.ReadFrom(src)\<close>: it reads into a buffer of
  8192 bytes until a status is reported, and turns \<^verbatim>\<open>io.EOF\<close> into nil.
\<close>

definition segments_left :: "Response \<Rightarrow> nat" where
  "segments_left r = sum_list (map (\<lambda>seg. Suc (length (fst seg))) (segments r))"

function discard_ReadFrom :: "Response \<Rightarrow> nat \<Rightarrow> (nat \<times> error option) \<times> Response" where
  "discard_ReadFrom r n =
     (case Response_Read r (replicate 8192 0) of
        (readSize, err, buf, r') \<Rightarrow>
          (case err of
             Some e \<Rightarrow> if e = EOF then ((n + readSize, None), r') else ((n + readSize, Some e), r')
           | None \<Rightarrow> discard_ReadFrom r' (n + readSize)))"
  by pat_completeness auto
termination
  by (relation "measure (\<lambda>(r, n). segments_left r)")
     (auto simp: Response_Read_def segments_left_def split: list.splits if_splits)

declare discard_ReadFrom.simps [simp del]

definition io_Copy_Discard :: "Response \<Rightarrow> (nat \<times> error option) \<times> Response" where
  "io_Copy_Discard src = discard_ReadFrom src 0"

subsection \<open>File\<close>

text \<open>
  \<^verbatim>\<open>type File struct { info fileinfo; resp *jlaftp.Response }\<close>. The methods mutate the
  response through the pointer; the model returns the file with its response updated.
  \<^verbatim>\<open>Close\<close> also returns what it printed with \<^verbatim>\<open>log.Printf\<close>.
\<close>

record File =
  info :: fileinfo
  resp :: Response

definition File_Stat :: "File \<Rightarrow> fileinfo \<times> error option" where
  "File_Stat f = (info f, None)"

definition File_Read :: "File \<Rightarrow> byte list \<Rightarrow> (nat \<times> error option) \<times> byte list \<times> File" where
  "File_Read f b =
     (case Response_Read (resp f) b of
        (n, err, b', r') \<Rightarrow>
          (case err of
             Some e \<Rightarrow>
               if e = EOF then ((n, Some e), b', f\<lparr>resp := r'\<rparr>)
               else ((n, Some (Wrap e [])), b', f\<lparr>resp := r'\<rparr>)
           | None \<Rightarrow> ((n, None), b', f\<lparr>resp := r'\<rparr>)))"

definition File_Close :: "File \<Rightarrow> error option \<times> error list \<times> File" where
  "File_Close f =
     (case io_Copy_Discard (resp f) of
        ((written, Some err), r') \<Rightarrow> (Some (Wrap err []), [], f\<lparr>resp := r'\<rparr>)
      | ((written, None), r') \<Rightarrow>
          (case Response_Close r' of
             (Some err, r'') \<Rightarrow> (Some (Wrap err []), [err], f\<lparr>resp := r''\<rparr>)
           | (None, r'') \<Rightarrow> (None, [], f\<lparr>resp := r''\<rparr>)))"

subsection \<open>Package path of the standard library\<close>

text \<open>
  \<^verbatim>\<open>getEntry\<close> splits a name with \<^verbatim>\<open>path.Dir\<close> and \<^verbatim>\<open>path.Base\<close>. They are Go's, and
  are translated from package \<^verbatim>\<open>path\<close>: a Go string is a sequence of bytes, as a
  \<open>string\<close> is here.

  \<^verbatim>\<open>bytealg.LastIndexByteString(s, c)\<close> is the last index of \<open>c\<close> in \<open>s\<close>, or -1.
\<close>

fun LastIndexByteString :: "string \<Rightarrow> char \<Rightarrow> int" where
  "LastIndexByteString [] c = - 1"
| "LastIndexByteString (x # xs) c =
     (if 0 \<le> LastIndexByteString xs c then LastIndexByteString xs c + 1
      else if x = c then 0 else - 1)"

text \<open>\<^verbatim>\<open>Split\<close>: \<^verbatim>\<open>i := LastIndexByteString(path, '/'); return path[:i+1], path[i+1:]\<close>.\<close>

definition path_Split :: "string \<Rightarrow> string \<times> string" where
  "path_Split p =
     (let i = LastIndexByteString p (CHR ''/'')
      in (take (nat (i + 1)) p, drop (nat (i + 1)) p))"

text \<open>
  \<^verbatim>\<open>Clean\<close> writes into a \<^verbatim>\<open>lazybuf\<close>; \<open>out\<close> is the part written so far (\<^verbatim>\<open>buf[:w]\<close>,
  so \<^verbatim>\<open>out.w\<close> is its length), \<open>dotdot\<close> the index where a \<^verbatim>\<open>..\<close> must stop. The
  input still to read (\<^verbatim>\<open>path[r:]\<close>) is the last argument.

  The inner loop of the \<^verbatim>\<open>..\<close> case,
  \<^verbatim>\<open>for out.w > dotdot && out.index(out.w) != '/' { out.w-- }\<close>, on the index \<open>w\<close>:
\<close>

function Clean_backtrack :: "string \<Rightarrow> nat \<Rightarrow> nat \<Rightarrow> nat" where
  "Clean_backtrack buf dotdot w =
     (if dotdot < w \<and> buf ! w \<noteq> CHR ''/'' then Clean_backtrack buf dotdot (w - 1) else w)"
  by pat_completeness auto
termination
  by (relation "measure (\<lambda>(buf, dotdot, w). w)") auto

declare Clean_backtrack.simps [simp del]

text \<open>
  The main loop \<^verbatim>\<open>for r < n { switch { ... } }\<close>, returning \<open>out\<close> and \<open>dotdot\<close>. The cases
  are the source's, in its order: an empty element, a \<^verbatim>\<open>.\<close> element, a \<^verbatim>\<open>..\<close> element
  (backtrack, or append \<^verbatim>\<open>..\<close> when not rooted), a real element (add a slash if needed,
  then copy up to the next slash). In the \<^verbatim>\<open>..\<close> case the source reads \<^verbatim>\<open>path[r+1]\<close>
  only after the \<^verbatim>\<open>.\<close> case has failed, where \<^verbatim>\<open>r+1 < n\<close>.
\<close>

function Clean_loop :: "bool \<Rightarrow> string \<times> nat \<Rightarrow> string \<Rightarrow> string \<times> nat" where
  "Clean_loop rooted (out, dotdot) [] = (out, dotdot)"
| "Clean_loop rooted (out, dotdot) (c # rest) =
     (if c = CHR ''/'' then Clean_loop rooted (out, dotdot) rest
      else if c = CHR ''.'' \<and> (rest = [] \<or> hd rest = CHR ''/'')
        then Clean_loop rooted (out, dotdot) rest
      else if c = CHR ''.'' \<and> rest \<noteq> [] \<and> hd rest = CHR ''.''
                \<and> (tl rest = [] \<or> hd (tl rest) = CHR ''/'')
        then (if dotdot < length out
              then Clean_loop rooted
                     (take (Clean_backtrack out dotdot (length out - 1)) out, dotdot) (tl rest)
              else if \<not> rooted
              then Clean_loop rooted
                     ((if 0 < length out then out @ ''/'' else out) @ ''..'',
                      length ((if 0 < length out then out @ ''/'' else out) @ ''..''))
                     (tl rest)
              else Clean_loop rooted (out, dotdot) (tl rest))
      else Clean_loop rooted
             ((if rooted \<and> length out \<noteq> 1 \<or> \<not> rooted \<and> length out \<noteq> 0
               then out @ ''/'' else out) @ takeWhile (\<lambda>x. x \<noteq> CHR ''/'') (c # rest),
              dotdot)
             (dropWhile (\<lambda>x. x \<noteq> CHR ''/'') (c # rest)))"
  by pat_completeness auto
termination
  by (relation "measure (\<lambda>(rooted, st, p). length p)")
     (simp_all add: less_Suc_eq_le length_dropWhile_le)

definition path_Clean :: "string \<Rightarrow> string" where
  "path_Clean p =
     (if p = [] then ''.''
      else let rooted = (hd p = CHR ''/'');
               out = fst (Clean_loop rooted
                            (if rooted then (''/'', 1) else ([], 0))
                            (if rooted then tl p else p))
           in if length out = 0 then ''.'' else out)"

text \<open>
  \<^verbatim>\<open>Base\<close>: strip the trailing slashes, keep what follows the last slash; an empty
  result means the path was all slashes.
\<close>

function strip_trailing_slashes :: "string \<Rightarrow> string" where
  "strip_trailing_slashes p =
     (if 0 < length p \<and> p ! (length p - 1) = CHR ''/''
      then strip_trailing_slashes (take (length p - 1) p) else p)"
  by pat_completeness auto
termination
  by (relation "measure length") auto

declare strip_trailing_slashes.simps [simp del]

definition path_Base :: "string \<Rightarrow> string" where
  "path_Base p =
     (if p = [] then ''.''
      else let p1 = strip_trailing_slashes p;
               i = LastIndexByteString p1 (CHR ''/'');
               p2 = (if 0 \<le> i then drop (nat (i + 1)) p1 else p1)
           in if p2 = [] then ''/'' else p2)"

definition path_Dir :: "string \<Rightarrow> string" where
  "path_Dir p = path_Clean (fst (path_Split p))"

subsection \<open>The session of the protocol client\<close>

text \<open>
  \<^verbatim>\<open>*jlaftp.ServerConn\<close> is the connected session. The package calls two of its
  methods, \<^verbatim>\<open>List\<close> and \<^verbatim>\<open>Retr\<close>. The session is modelled by what the server answers
  to each path, and by the commands it has been sent, oldest first.
\<close>

datatype command = CmdList string | CmdRetr string

record ServerConn =
  list_reply :: "string \<Rightarrow> error + Entry list"
  retr_reply :: "string \<Rightarrow> error + Response"
  sent :: "command list"

definition ServerConn_List :: "ServerConn \<Rightarrow> string \<Rightarrow> (error + Entry list) \<times> ServerConn" where
  "ServerConn_List conn p = (list_reply conn p, conn\<lparr>sent := sent conn @ [CmdList p]\<rparr>)"

definition ServerConn_Retr :: "ServerConn \<Rightarrow> string \<Rightarrow> (error + Response) \<times> ServerConn" where
  "ServerConn_Retr conn p = (retr_reply conn p, conn\<lparr>sent := sent conn @ [CmdRetr p]\<rparr>)"

subsection \<open>FS\<close>

text \<open>
  \<^verbatim>\<open>type FS struct { c *jlaftp.ServerConn }\<close>. Every method returns its result and the
  file system with its session as the calls left it.
\<close>

record FS =
  fs_c :: ServerConn

definition NewFS :: "ServerConn \<Rightarrow> FS" where
  "NewFS conn = \<lparr>fs_c = conn\<rparr>"

text \<open>
  The scan of \<^verbatim>\<open>getEntry\<close>:
  \<^verbatim>\<open>for _, e := range entries { if e.Name == base { entry = e; break } }\<close>;
  \<open>None\<close> is the nil pointer that \<^verbatim>\<open>entry\<close> starts as.
\<close>

fun getEntry_scan :: "Entry list \<Rightarrow> string \<Rightarrow> Entry option" where
  "getEntry_scan [] base = None"
| "getEntry_scan (e # entries) base =
     (if Name e = base then Some e else getEntry_scan entries base)"

text \<open>
  The second loop copies every entry into \<^verbatim>\<open>derefed\<close>:
  \<^verbatim>\<open>for _, e := range entries { derefed = append(derefed, *e) }\<close>.
\<close>

fun getEntry_deref :: "Entry list \<Rightarrow> Entry list \<Rightarrow> Entry list" where
  "getEntry_deref [] derefed = derefed"
| "getEntry_deref (e # entries) derefed = getEntry_deref entries (derefed @ [e])"

definition FS_getEntry :: "FS \<Rightarrow> string \<Rightarrow> (error + Entry) \<times> FS" where
  "FS_getEntry fs name =
     (let parent = path_Dir name in
      case ServerConn_List (fs_c fs) parent of
        (Inl err, conn) \<Rightarrow> (Inl (Wrap err parent), fs\<lparr>fs_c := conn\<rparr>)
      | (Inr entries, conn) \<Rightarrow>
          (let base = path_Base name in
           case getEntry_scan entries base of
             None \<Rightarrow> (Inl (Errorf base (getEntry_deref entries [])), fs\<lparr>fs_c := conn\<rparr>)
           | Some entry \<Rightarrow> (Inr entry, fs\<lparr>fs_c := conn\<rparr>)))"

definition FS_Open :: "FS \<Rightarrow> string \<Rightarrow> (error + File) \<times> FS" where
  "FS_Open fs name =
     (case FS_getEntry fs name of
        (Inl err, fs1) \<Rightarrow> (Inl (Wrap err []), fs1)
      | (Inr entry, fs1) \<Rightarrow>
          (case ServerConn_Retr (fs_c fs1) name of
             (Inl err, conn) \<Rightarrow> (Inl (Wrap err []), fs1\<lparr>fs_c := conn\<rparr>)
           | (Inr r, conn) \<Rightarrow>
               (Inr \<lparr>info = fileinfo entry, resp = r\<rparr>, fs1\<lparr>fs_c := conn\<rparr>)))"

definition FS_Stat :: "FS \<Rightarrow> string \<Rightarrow> (error + fileinfo) \<times> FS" where
  "FS_Stat fs name =
     (case FS_getEntry fs name of
        (Inl err, fs1) \<Rightarrow> (Inl (Wrap err []), fs1)
      | (Inr entry, fs1) \<Rightarrow> (Inr (fileinfo entry), fs1))"

subsection \<open>ReadDir\<close>

text \<open>
  \<^verbatim>\<open>fs.FileInfoToDirEntry(info)\<close> wraps a file info as a directory entry; its \<^verbatim>\<open>Name\<close> is
  the info's.
\<close>

datatype DirEntry = dirInfo (fileInfo: fileinfo)

definition FileInfoToDirEntry :: "fileinfo \<Rightarrow> DirEntry" where
  "FileInfoToDirEntry fi = dirInfo fi"

definition DirEntry_Name :: "DirEntry \<Rightarrow> string" where
  "DirEntry_Name d = fileinfo_Name (fileInfo d)"

text \<open>
  The comparison handed to \<^verbatim>\<open>sort.Slice\<close>: \<^verbatim>\<open>entries[i].Name < entries[j].Name\<close>. Go
  compares strings byte by byte, a proper prefix first, as the order on \<open>string\<close> does.
\<close>

definition less_Name :: "Entry \<Rightarrow> Entry \<Rightarrow> bool" where
  "less_Name a b \<longleftrightarrow> Name a < Name b"

text \<open>
  \<^verbatim>\<open>sort.Slice\<close> is the standard library's, and which algorithm runs depends on the
  length of the slice and on the release of Go. The functions of the package take it as
  the parameter \<open>sort_Slice\<close>; what \<^verbatim>\<open>sort.Slice\<close> documents is that the slice ends up with
  the same elements, in an order where no element is less than one before it, and that
  the sort is not stable. \<open>sorts\<close> says so of one call.
\<close>

type_synonym sorter = "(Entry \<Rightarrow> Entry \<Rightarrow> bool) \<Rightarrow> Entry list \<Rightarrow> Entry list"

definition sorts :: "sorter \<Rightarrow> Entry list \<Rightarrow> bool" where
  "sorts sort_Slice entries \<longleftrightarrow>
     mset (sort_Slice less_Name entries) = mset entries \<and>
     sorted_wrt (\<lambda>a b. \<not> less_Name b a) (sort_Slice less_Name entries)"

text \<open>
  On a slice of at most six elements every release runs only the insertion sort of
  package \<^verbatim>\<open>sort\<close>:
  \<^verbatim>\<open>for i := a + 1; i < b; i++ { for j := i; j > a && less(j, j-1); j-- { swap(j, j-1) } }\<close>
  with \<open>a = 0\<close> and \<open>b\<close> the length. \<open>insertionSort_inner\<close> is the loop on \<open>j\<close> (where
  \<open>j < b\<close>, as \<open>j\<close> starts from \<open>i\<close>), \<open>insertionSort_outer\<close> the loop on \<open>i\<close>, which
  runs \<open>b - 1\<close> times.
\<close>

function insertionSort_inner :: "('a \<Rightarrow> 'a \<Rightarrow> bool) \<Rightarrow> 'a list \<Rightarrow> nat \<Rightarrow> 'a list" where
  "insertionSort_inner lt data j =
     (if 0 < j \<and> j < length data \<and> lt (data ! j) (data ! (j - 1))
      then insertionSort_inner lt (data[j := data ! (j - 1), j - 1 := data ! j]) (j - 1)
      else data)"
  by pat_completeness auto
termination
  by (relation "measure (\<lambda>(lt, data, j). j)") auto

declare insertionSort_inner.simps [simp del]

fun insertionSort_outer :: "('a \<Rightarrow> 'a \<Rightarrow> bool) \<Rightarrow> 'a list \<Rightarrow> nat \<Rightarrow> nat \<Rightarrow> 'a list" where
  "insertionSort_outer lt data i 0 = data"
| "insertionSort_outer lt data i (Suc k) =
     insertionSort_outer lt (insertionSort_inner lt data i) (Suc i) k"

definition insertionSort :: "('a \<Rightarrow> 'a \<Rightarrow> bool) \<Rightarrow> 'a list \<Rightarrow> 'a list" where
  "insertionSort lt data = insertionSort_outer lt data 1 (length data - 1)"

text \<open>
  The loop of \<^verbatim>\<open>ReadDir\<close> over the sorted entries, appending to \<open>ds\<close>; the two
  \<^verbatim>\<open>continue\<close> cases come first, as in the switch.
\<close>

fun ReadDir_loop :: "Entry list \<Rightarrow> DirEntry list \<Rightarrow> DirEntry list" where
  "ReadDir_loop [] ds = ds"
| "ReadDir_loop (e # entries) ds =
     (if Name e = ''.'' then ReadDir_loop entries ds
      else if Name e = ''..'' then ReadDir_loop entries ds
      else ReadDir_loop entries (ds @ [FileInfoToDirEntry (fileinfo e)]))"

definition FS_ReadDir :: "sorter \<Rightarrow> FS \<Rightarrow> string \<Rightarrow> (error + DirEntry list) \<times> FS" where
  "FS_ReadDir sort_Slice fsys name =
     (case ServerConn_List (fs_c fsys) name of
        (Inl err, conn) \<Rightarrow> (Inl (Wrap err []), fsys\<lparr>fs_c := conn\<rparr>)
      | (Inr entries, conn) \<Rightarrow>
          (Inr (ReadDir_loop (sort_Slice less_Name entries) []), fsys\<lparr>fs_c := conn\<rparr>))"

subsection \<open>Example values\<close>

text \<open>
  A stream that still holds two segments and ends cleanly, a stream whose only segment
  ends with a transport failure, and a file over either.
\<close>

definition example_response :: Response where
  "example_response =
     \<lparr>segments = [([1, 2, 3], None), ([4, 5], None)], close_status = None, issued = []\<rparr>"

definition example_broken_response :: Response where
  "example_broken_response =
     \<lparr>segments = [([1, 2, 3], Some (ClientError ''connection reset''))],
      close_status = None, issued = []\<rparr>"

definition example_file :: "Response \<Rightarrow> File" where
  "example_file r =
     \<lparr>info = fileinfo \<lparr>Name = ''data.txt'', Target = [], Type = EntryTypeFile,
               Size = 5, Time = 0\<rparr>,
      resp = r\<rparr>"

text \<open>
  A session: \<^verbatim>\<open>/pub\<close> lists two files after the two pseudo-entries, \<^verbatim>\<open>/x\<close> lists one
  file, \<^verbatim>\<open>/dup\<close> reports the name \<^verbatim>\<open>a\<close> twice, \<^verbatim>\<open>a\<close> holds the empty directory \<^verbatim>\<open>b\<close>, and every other listing fails.
  Only \<^verbatim>\<open>/pub/a.txt\<close> can be retrieved.
\<close>

definition example_entry :: "string \<Rightarrow> EntryType \<Rightarrow> uint64 \<Rightarrow> Entry" where
  "example_entry n t s = \<lparr>Name = n, Target = [], Type = t, Size = s, Time = 0\<rparr>"

definition example_conn :: ServerConn where
  "example_conn =
     \<lparr>list_reply = (\<lambda>p.
        if p = ''/x'' then Inr [example_entry ''z'' EntryTypeFile 1]
        else if p = ''/pub'' then
          Inr [example_entry ''.'' EntryTypeFolder 0, example_entry ''..'' EntryTypeFolder 0,
               example_entry ''b.txt'' EntryTypeFile 7, example_entry ''a.txt'' EntryTypeFile 42]
        else if p = ''/dup'' then
          Inr [example_entry ''a'' EntryTypeFile 1, example_entry ''a'' EntryTypeFile 2]
        else if p = ''a'' then Inr [example_entry ''b'' EntryTypeFolder 0]
        else if p = ''a/b'' then Inr []
        else Inl (ClientError ''550 no such directory'')),
      retr_reply = (\<lambda>p.
        if p = ''/pub/a.txt'' then Inr example_response
        else Inl (ClientError ''550 no such file'')),
      sent = []\<rparr>"

text \<open>The same session, with the two entries of \<^verbatim>\<open>/dup\<close> reported the other way round.\<close>

definition example_conn_reordered :: ServerConn where
  "example_conn_reordered =
     example_conn\<lparr>list_reply := (list_reply example_conn)
       (''/dup'' := Inr [example_entry ''a'' EntryTypeFile 2, example_entry ''a'' EntryTypeFile 1])\<rparr>"

section \<open>Properties of fileinfo\<close>

lemma mode_bits:
  "FileMode_IsRegular 0" "FileMode_IsDir ModeDir" "\<not> FileMode_IsRegular ModeDir"
  "\<not> FileMode_IsDir ModeSymlink" "\<not> FileMode_IsRegular ModeSymlink"
  "ModeDir AND ModeType = ModeDir" "ModeSymlink AND ModeType = ModeSymlink"
  by (simp_all add: FileMode_IsRegular_def FileMode_IsDir_def ModeType_def ModeDir_def
      ModeSymlink_def ModeDevice_def ModeNamedPipe_def ModeSocket_def ModeCharDevice_def
      ModeIrregular_def)

text \<open>
  C6. \<^verbatim>\<open>Mode\<close> translates the three known entry types: a file to the regular mode (no
  type bit), a folder to \<^verbatim>\<open>ModeDir\<close>, for which \<^verbatim>\<open>IsDir\<close> of the file info is true, a
  link to \<^verbatim>\<open>ModeSymlink\<close>. Every other type value makes it panic, and it returns a mode
  exactly on the three known types. The panic is no error value: \<^verbatim>\<open>Mode\<close> has no error
  result.
\<close>

theorem fileinfo_Mode_total:
  "(Type (info_e fi) = EntryTypeFile \<longrightarrow>
      fileinfo_Mode fi = Inr 0 \<and> FileMode_IsRegular 0 \<and> \<not> fileinfo_IsDir fi)
   \<and> (Type (info_e fi) = EntryTypeFolder \<longrightarrow>
      fileinfo_Mode fi = Inr ModeDir \<and> FileMode_IsDir ModeDir
      \<and> ModeDir AND ModeType = ModeDir \<and> fileinfo_IsDir fi)
   \<and> (Type (info_e fi) = EntryTypeLink \<longrightarrow>
      fileinfo_Mode fi = Inr ModeSymlink \<and> ModeSymlink AND ModeType = ModeSymlink
      \<and> \<not> FileMode_IsDir ModeSymlink \<and> \<not> fileinfo_IsDir fi)
   \<and> (Type (info_e fi) \<notin> {EntryTypeFile, EntryTypeFolder, EntryTypeLink} \<longrightarrow>
      fileinfo_Mode fi = Inl (Panic fi))
   \<and> ((\<exists>m. fileinfo_Mode fi = Inr m) \<longleftrightarrow>
      Type (info_e fi) \<in> {EntryTypeFile, EntryTypeFolder, EntryTypeLink})"
  by (auto simp: fileinfo_Mode_def fileinfo_IsDir_def mode_bits EntryTypeFile_def
      EntryTypeFolder_def EntryTypeLink_def)

theorem fileinfo_Mode_total_witness:
  "fileinfo_Mode (fileinfo \<lparr>Name = ''data.txt'', Target = [], Type = EntryTypeFile,
       Size = 42, Time = 0\<rparr>) = Inr 0
   \<and> fileinfo_Mode (fileinfo \<lparr>Name = ''pub'', Target = [], Type = EntryTypeFolder,
       Size = 0, Time = 0\<rparr>) = Inr ModeDir
   \<and> fileinfo_IsDir (fileinfo \<lparr>Name = ''pub'', Target = [], Type = EntryTypeFolder,
       Size = 0, Time = 0\<rparr>)
   \<and> fileinfo_Mode (fileinfo \<lparr>Name = ''latest'', Target = ''pub'', Type = EntryTypeLink,
       Size = 0, Time = 0\<rparr>) = Inr ModeSymlink
   \<and> fileinfo_Mode (fileinfo \<lparr>Name = ''odd'', Target = [], Type = 7,
       Size = 0, Time = 0\<rparr>)
     = Inl (Panic (fileinfo \<lparr>Name = ''odd'', Target = [], Type = 7, Size = 0, Time = 0\<rparr>))"
  using
    fileinfo_Mode_total [of "fileinfo \<lparr>Name = ''data.txt'', Target = [], Type = EntryTypeFile,
       Size = 42, Time = 0\<rparr>"]
    fileinfo_Mode_total [of "fileinfo \<lparr>Name = ''pub'', Target = [], Type = EntryTypeFolder,
       Size = 0, Time = 0\<rparr>"]
    fileinfo_Mode_total [of "fileinfo \<lparr>Name = ''latest'', Target = ''pub'', Type = EntryTypeLink,
       Size = 0, Time = 0\<rparr>"]
    fileinfo_Mode_total [of "fileinfo \<lparr>Name = ''odd'', Target = [], Type = 7,
       Size = 0, Time = 0\<rparr>"]
  by (simp add: EntryTypeFile_def EntryTypeFolder_def EntryTypeLink_def)

lemma sint_uint64:
  "sint (w :: 64 word) = (if uint w < 2 ^ 63 then uint w else uint w - 2 ^ 64)"
proof -
  have lo: "0 \<le> uint w" by simp
  have hi: "uint w < 2 ^ 64" using uint_bounded [of w] by simp
  have s: "sint w = (uint w + 2 ^ 63) mod 2 ^ 64 - 2 ^ 63"
    by (simp add: sint_uint signed_take_bit_eq_take_bit_shift take_bit_eq_mod)
  show ?thesis
  proof (cases "uint w < 2 ^ 63")
    case True
    then have "(uint w + 2 ^ 63) mod 2 ^ 64 = uint w + 2 ^ 63"
      using lo by (intro mod_pos_pos_trivial) simp_all
    with True s show ?thesis by simp
  next
    case False
    then have "(uint w + 2 ^ 63) mod 2 ^ 64 = uint w + 2 ^ 63 - 2 ^ 64"
      using hi by (simp add: mod_pos_geq)
    with False s show ?thesis by simp
  qed
qed

text \<open>
  C10. \<^verbatim>\<open>Size\<close> returns the unsigned 64-bit size of the entry read as a signed 64-bit
  integer: the same 64 bits, so the raw size itself below \<open>2 ^ 63\<close> and the raw size minus
  \<open>2 ^ 64\<close>, a negative number, from \<open>2 ^ 63\<close> on.
\<close>

theorem fileinfo_Size_reinterprets:
  "fileinfo_Size fi =
     (if uint (Size (info_e fi)) < 2 ^ 63 then uint (Size (info_e fi))
      else uint (Size (info_e fi)) - 2 ^ 64)
   \<and> (2 ^ 63 \<le> uint (Size (info_e fi)) \<longrightarrow> fileinfo_Size fi < 0)
   \<and> (uint (Size (info_e fi)) < 2 ^ 63 \<longrightarrow> 0 \<le> fileinfo_Size fi)
   \<and> word_of_int (fileinfo_Size fi) = Size (info_e fi)"
proof -
  let ?w = "Size (info_e fi)"
  have hi: "uint ?w < 2 ^ 64" using uint_bounded [of ?w] by simp
  show ?thesis
    unfolding fileinfo_Size_def using sint_uint64 [of ?w] hi by (auto simp: not_less)
qed

theorem fileinfo_Size_reinterprets_witness:
  "fileinfo_Size (fileinfo \<lparr>Name = ''big'', Target = [], Type = EntryTypeFile,
       Size = 2 ^ 63 + 5, Time = 0\<rparr>) = 5 - 2 ^ 63
   \<and> fileinfo_Size (fileinfo \<lparr>Name = ''big'', Target = [], Type = EntryTypeFile,
       Size = 2 ^ 63 + 5, Time = 0\<rparr>) < 0
   \<and> fileinfo_Size (fileinfo \<lparr>Name = ''data.txt'', Target = [], Type = EntryTypeFile,
       Size = 42, Time = 0\<rparr>) = 42"
  using
    fileinfo_Size_reinterprets [of "fileinfo \<lparr>Name = ''big'', Target = [],
       Type = EntryTypeFile, Size = 2 ^ 63 + 5, Time = 0\<rparr>"]
    fileinfo_Size_reinterprets [of "fileinfo \<lparr>Name = ''data.txt'', Target = [],
       Type = EntryTypeFile, Size = 42, Time = 0\<rparr>"]
  by simp

section \<open>Properties of File\<close>

text \<open>
  C5. \<^verbatim>\<open>Read\<close> hands on what the underlying stream returned: with status nil, the count
  and no error; with \<^verbatim>\<open>io.EOF\<close>, the count and \<^verbatim>\<open>io.EOF\<close> itself, not wrapped; with any
  other failure, the count of bytes read before it (zero or more) and the failure
  wrapped, which keeps its cause and is not \<^verbatim>\<open>io.EOF\<close>.
\<close>

theorem File_Read_status:
  assumes "Response_Read (resp f) b = (n, st, b', r')"
  shows "(st = None \<longrightarrow> File_Read f b = ((n, None), b', f\<lparr>resp := r'\<rparr>))
     \<and> (st = Some EOF \<longrightarrow> File_Read f b = ((n, Some EOF), b', f\<lparr>resp := r'\<rparr>))
     \<and> (\<forall>e. st = Some e \<and> e \<noteq> EOF \<longrightarrow>
           File_Read f b = ((n, Some (Wrap e [])), b', f\<lparr>resp := r'\<rparr>)
           \<and> Cause (Wrap e []) = Cause e \<and> Wrap e [] \<noteq> EOF)"
  using assms by (simp add: File_Read_def)

theorem File_Read_status_witness:
  "File_Read (example_file example_broken_response) [0, 0, 0, 0]
     = ((3, Some (Wrap (ClientError ''connection reset'') [])), [1, 2, 3, 0],
        example_file (example_broken_response\<lparr>segments := [],
          issued := [CallRead 3 (Some (ClientError ''connection reset''))]\<rparr>))
   \<and> File_Read (example_file (example_broken_response\<lparr>segments := []\<rparr>)) [0, 0, 0, 0]
     = ((0, Some EOF), [0, 0, 0, 0],
        example_file (example_broken_response\<lparr>segments := [],
          issued := [CallRead 0 (Some EOF)]\<rparr>))
   \<and> File_Read (example_file example_response) [0, 0]
     = ((2, None), [1, 2],
        example_file (example_response\<lparr>segments := [([3], None), ([4, 5], None)],
          issued := [CallRead 2 None]\<rparr>))"
proof -
  have a: "Response_Read (resp (example_file example_broken_response)) [0, 0, 0, 0]
      = (3, Some (ClientError ''connection reset''), [1, 2, 3, 0],
         example_broken_response\<lparr>segments := [],
           issued := [CallRead 3 (Some (ClientError ''connection reset''))]\<rparr>)"
    by (simp add: Response_Read_def example_file_def example_broken_response_def)
  have b: "Response_Read (resp (example_file (example_broken_response\<lparr>segments := []\<rparr>)))
        [0, 0, 0, 0]
      = (0, Some EOF, [0, 0, 0, 0],
         example_broken_response\<lparr>segments := [], issued := [CallRead 0 (Some EOF)]\<rparr>)"
    by (simp add: Response_Read_def example_file_def example_broken_response_def)
  have c: "Response_Read (resp (example_file example_response)) [0, 0]
      = (2, None, [1, 2],
         example_response\<lparr>segments := [([3], None), ([4, 5], None)],
           issued := [CallRead 2 None]\<rparr>)"
    by (simp add: Response_Read_def example_file_def example_response_def)
  show ?thesis
    using File_Read_status [OF a] File_Read_status [OF b] File_Read_status [OF c]
    by (simp add: example_file_def)
qed

lemma Response_Read_issued:
  "Response_Read r b = (k, st, b', r1) \<Longrightarrow>
     issued r1 = issued r @ [CallRead k st] \<and> close_status r1 = close_status r"
  by (auto simp: Response_Read_def split: list.splits if_splits)

lemma Response_Read_clean:
  "Response_Read r b = (k, st, b', r1) \<Longrightarrow> \<forall>seg\<in>set (segments r). snd seg = None \<Longrightarrow>
     (st = None \<or> st = Some EOF \<and> segments r = [])
     \<and> (\<forall>seg\<in>set (segments r1). snd seg = None)
     \<and> (st = Some EOF \<longrightarrow> segments r1 = [])"
  by (cases "segments r") (force simp: Response_Read_def split: if_splits)+

text \<open>
  The drain reads until the stream reports a status: every read but the last returned
  nil, and the last one reported \<^verbatim>\<open>io.EOF\<close> (then the drain succeeds) or the failure the
  drain returns.
\<close>

lemma discard_ReadFrom_issued:
  "discard_ReadFrom r n = ((m, st), r') \<Longrightarrow>
     \<exists>reads k. (\<forall>c\<in>set reads. \<exists>j. c = CallRead j None) \<and> st \<noteq> Some EOF
       \<and> issued r' = issued r @ reads
            @ [CallRead k (case st of None \<Rightarrow> Some EOF | Some e \<Rightarrow> Some e)]
       \<and> close_status r' = close_status r"
proof (induction r n arbitrary: m st r' rule: discard_ReadFrom.induct)
  case (1 r n)
  obtain k err b' r1 where rd: "Response_Read r (replicate 8192 0) = (k, err, b', r1)"
    by (metis prod_cases4)
  note iss = Response_Read_issued [OF rd]
  show ?case
  proof (cases err)
    case None
    with rd "1.prems" have rec: "discard_ReadFrom r1 (n + k) = ((m, st), r')"
      by (simp add: discard_ReadFrom.simps [of r n])
    from "1.IH" [OF rd [symmetric] refl refl None rec]
    obtain reads j where h: "\<forall>c\<in>set reads. \<exists>j. c = CallRead j None" "st \<noteq> Some EOF"
      "issued r' = issued r1 @ reads
         @ [CallRead j (case st of None \<Rightarrow> Some EOF | Some e \<Rightarrow> Some e)]"
      "close_status r' = close_status r1"
      by blast
    show ?thesis
      apply (rule exI [of _ "CallRead k None # reads"])
      apply (rule exI [of _ j])
      using h iss None by simp
  next
    case (Some e)
    with rd "1.prems" have res: "r' = r1" "st = (if e = EOF then None else Some e)"
      by (auto simp: discard_ReadFrom.simps [of r n] split: if_splits)
    show ?thesis
      apply (rule exI [of _ "[]"])
      apply (rule exI [of _ k])
      using res iss Some by auto
  qed
qed

lemma discard_ReadFrom_clean:
  "discard_ReadFrom r n = ((m, st), r') \<Longrightarrow> \<forall>seg\<in>set (segments r). snd seg = None \<Longrightarrow>
     st = None \<and> segments r' = []"
proof (induction r n arbitrary: m st r' rule: discard_ReadFrom.induct)
  case (1 r n)
  obtain k err b' r1 where rd: "Response_Read r (replicate 8192 0) = (k, err, b', r1)"
    by (metis prod_cases4)
  note cl = Response_Read_clean [OF rd "1.prems"(2)]
  show ?case
  proof (cases err)
    case None
    with rd "1.prems" have rec: "discard_ReadFrom r1 (n + k) = ((m, st), r')"
      by (simp add: discard_ReadFrom.simps [of r n])
    from "1.IH" [OF rd [symmetric] refl refl None rec] cl show ?thesis by blast
  next
    case (Some e)
    with cl have e: "e = EOF" "segments r1 = []" by auto
    with Some rd "1.prems" show ?thesis
      by (auto simp: discard_ReadFrom.simps [of r n])
  qed
qed

text \<open>
  C4. Whatever \<^verbatim>\<open>Close\<close> returns, the calls it made on the stream are a run of reads
  that returned nil, then one last read, and then: either that read reported \<^verbatim>\<open>io.EOF\<close>
  (the drain succeeded), the stream-close follows it as the last call, and the result is
  the close's status, wrapped when it is a failure; or that read reported a failure, no
  stream-close is issued, and the result is that failure wrapped. So the stream-close is
  never issued before the drain has completed with success. On a stream already
  consumed the drain is one read that reports \<^verbatim>\<open>io.EOF\<close>, followed by the close. On a
  stream whose segments carry no failure nothing is left unread when the close is issued.
\<close>

theorem File_Close_drains_first:
  assumes "File_Close f = (st, logged, f')"
  shows "\<exists>reads k.
     (\<forall>c\<in>set reads. \<exists>j. c = CallRead j None)
     \<and> ((issued (resp f') = issued (resp f) @ reads @ [CallRead k (Some EOF), CallClose]
          \<and> st = map_option (\<lambda>e. Wrap e []) (close_status (resp f)))
       \<or> (\<exists>e. e \<noteq> EOF
          \<and> issued (resp f') = issued (resp f) @ reads @ [CallRead k (Some e)]
          \<and> st = Some (Wrap e [])))
     \<and> (segments (resp f) = [] \<longrightarrow>
          issued (resp f') = issued (resp f) @ [CallRead 0 (Some EOF), CallClose])
     \<and> ((\<forall>seg\<in>set (segments (resp f)). snd seg = None) \<longrightarrow>
          segments (resp f') = [] \<and> last (issued (resp f')) = CallClose)"
proof -
  obtain m d r1 where cp: "discard_ReadFrom (resp f) 0 = ((m, d), r1)"
    by (metis surj_pair)
  from discard_ReadFrom_issued [OF cp]
  obtain reads k where h: "\<forall>c\<in>set reads. \<exists>j. c = CallRead j None" "d \<noteq> Some EOF"
    "issued r1 = issued (resp f) @ reads
       @ [CallRead k (case d of None \<Rightarrow> Some EOF | Some e \<Rightarrow> Some e)]"
    "close_status r1 = close_status (resp f)"
    by blast
  have empty: "segments (resp f) = [] \<Longrightarrow>
      d = None \<and> issued r1 = issued (resp f) @ [CallRead 0 (Some EOF)]"
    using cp by (simp add: discard_ReadFrom.simps [of "resp f" 0] Response_Read_def) auto
  have clean: "\<forall>seg\<in>set (segments (resp f)). snd seg = None \<Longrightarrow> d = None \<and> segments r1 = []"
    using discard_ReadFrom_clean [OF cp] by blast
  show ?thesis
  proof (cases d)
    case None
    with cp assms have f': "f' = f\<lparr>resp := r1\<lparr>issued := issued r1 @ [CallClose]\<rparr>\<rparr>"
      and st: "st = map_option (\<lambda>e. Wrap e []) (close_status r1)"
      by (auto simp: File_Close_def io_Copy_Discard_def Response_Close_def split: option.splits)
    show ?thesis
      apply (rule exI [of _ reads])
      apply (rule exI [of _ k])
      using h None f' st empty clean by auto
  next
    case (Some e)
    with cp assms have f': "f' = f\<lparr>resp := r1\<rparr>" and st: "st = Some (Wrap e [])"
      by (auto simp: File_Close_def io_Copy_Discard_def)
    from Some empty have ne: "segments (resp f) \<noteq> []" by auto
    from Some clean have nc: "\<not> (\<forall>seg\<in>set (segments (resp f)). snd seg = None)" by blast
    show ?thesis
      apply (rule exI [of _ reads])
      apply (rule exI [of _ k])
      using h Some f' st ne nc by simp
  qed
qed

theorem File_Close_drains_first_witness:
  "File_Close (example_file example_response)
     = (None, [], example_file (example_response\<lparr>segments := [],
          issued := [CallRead 3 None, CallRead 2 None, CallRead 0 (Some EOF), CallClose]\<rparr>))
   \<and> (\<exists>reads k. (\<forall>c\<in>set reads. \<exists>j. c = CallRead j None)
         \<and> [CallRead 3 None, CallRead 2 None, CallRead 0 (Some EOF), CallClose]
            = reads @ [CallRead k (Some EOF), CallClose])"
proof -
  have ev: "File_Close (example_file example_response)
     = (None, [], example_file (example_response\<lparr>segments := [],
          issued := [CallRead 3 None, CallRead 2 None, CallRead 0 (Some EOF), CallClose]\<rparr>))"
    by (simp add: File_Close_def io_Copy_Discard_def discard_ReadFrom.simps Response_Read_def
        Response_Close_def example_file_def example_response_def)
  show ?thesis
    using File_Close_drains_first [OF ev] ev
    by (simp add: example_file_def example_response_def)
qed

section \<open>Properties of the resolver\<close>

lemma getEntry_scan_None: "getEntry_scan entries base = None \<longleftrightarrow> base \<notin> Name ` set entries"
  by (induction entries) auto

lemma getEntry_scan_Some:
  "getEntry_scan entries base = Some e \<Longrightarrow>
     Name e = base \<and> (\<exists>before after. entries = before @ e # after \<and> base \<notin> Name ` set before)"
proof (induction entries)
  case Nil
  then show ?case by simp
next
  case (Cons x xs)
  show ?case
  proof (cases "Name x = base")
    case True
    with Cons.prems have "e = x" by simp
    with True have "Name e = base" "x # xs = [] @ e # xs" "base \<notin> Name ` set []" by simp_all
    then show ?thesis by blast
  next
    case False
    with Cons obtain before after where "Name e = base" "xs = before @ e # after"
      "base \<notin> Name ` set before" by auto
    with False have "Name e = base" "x # xs = (x # before) @ e # after"
      "base \<notin> Name ` set (x # before)" by auto
    then show ?thesis by blast
  qed
qed

lemma getEntry_deref_append: "getEntry_deref entries derefed = derefed @ entries"
  by (induction entries arbitrary: derefed) auto

lemma FS_getEntry_list_fails:
  "list_reply (fs_c fs) (path_Dir name) = Inl err \<Longrightarrow>
     FS_getEntry fs name =
       (Inl (Wrap err (path_Dir name)),
        fs\<lparr>fs_c := (fs_c fs)\<lparr>sent := sent (fs_c fs) @ [CmdList (path_Dir name)]\<rparr>\<rparr>)"
  by (simp add: FS_getEntry_def ServerConn_List_def Let_def)

lemma FS_getEntry_listed:
  "list_reply (fs_c fs) (path_Dir name) = Inr entries \<Longrightarrow>
     FS_getEntry fs name =
       (case getEntry_scan entries (path_Base name) of
          None \<Rightarrow> Inl (Errorf (path_Base name) entries)
        | Some e \<Rightarrow> Inr e,
        fs\<lparr>fs_c := (fs_c fs)\<lparr>sent := sent (fs_c fs) @ [CmdList (path_Dir name)]\<rparr>\<rparr>)"
  by (simp add: FS_getEntry_def ServerConn_List_def Let_def getEntry_deref_append split: option.splits)

text \<open>
  C1. With \<open>d = path.Dir(p)\<close> and \<open>b = path.Base(p)\<close>: \<^verbatim>\<open>Stat(p)\<close> succeeds exactly when the
  session's listing of \<open>d\<close> succeeds and holds an entry whose name is equal to \<open>b\<close>
  (equality of strings: case matters, no character is a wildcard). On success the name of
  the metadata is \<open>b\<close>, and the entry returned is the first of that name in the order of
  the listing: no entry before it has the name. One list command is sent, for \<open>d\<close>.
\<close>

theorem FS_Stat_resolves:
  "((\<exists>fi. fst (FS_Stat fs p) = Inr fi) \<longleftrightarrow>
      (\<exists>entries. list_reply (fs_c fs) (path_Dir p) = Inr entries
         \<and> path_Base p \<in> Name ` set entries))
   \<and> (\<forall>fi. fst (FS_Stat fs p) = Inr fi \<longrightarrow>
         fileinfo_Name fi = path_Base p
         \<and> (\<exists>before after. list_reply (fs_c fs) (path_Dir p) = Inr (before @ info_e fi # after)
              \<and> path_Base p \<notin> Name ` set before))
   \<and> sent (fs_c (snd (FS_Stat fs p))) = sent (fs_c fs) @ [CmdList (path_Dir p)]"
proof (cases "list_reply (fs_c fs) (path_Dir p)")
  case (Inl err)
  then show ?thesis
    by (simp add: FS_Stat_def FS_getEntry_list_fails)
next
  case (Inr entries)
  show ?thesis
  proof (cases "getEntry_scan entries (path_Base p)")
    case None
    with Inr show ?thesis
      using getEntry_scan_None [of entries "path_Base p"]
      by (simp add: FS_Stat_def FS_getEntry_listed)
  next
    case (Some e)
    from getEntry_scan_Some [OF Some] obtain before after where
      e: "Name e = path_Base p" "entries = before @ e # after" "path_Base p \<notin> Name ` set before"
      by blast
    have "path_Base p \<in> Name ` set entries"
      using getEntry_scan_None [of entries "path_Base p"] Some by auto
    with Inr Some e show ?thesis
      by (auto simp: FS_Stat_def FS_getEntry_listed fileinfo_Name_def)
  qed
qed

lemma ex_dir: "path_Dir ''/pub/a.txt'' = ''/pub''" "path_Base ''/pub/a.txt'' = ''a.txt''"
  "path_Dir ''/dup/a'' = ''/dup''" "path_Base ''/dup/a'' = ''a''"
  "path_Dir ''/pub/A.TXT'' = ''/pub''" "path_Base ''/pub/A.TXT'' = ''A.TXT''"
  by (simp_all add: path_Dir_def path_Base_def path_Split_def path_Clean_def
        Clean_backtrack.simps strip_trailing_slashes.simps Let_def)


lemma example_lists:
  "list_reply (fs_c (NewFS example_conn)) ''/pub''
     = Inr [example_entry ''.'' EntryTypeFolder 0, example_entry ''..'' EntryTypeFolder 0,
            example_entry ''b.txt'' EntryTypeFile 7, example_entry ''a.txt'' EntryTypeFile 42]"
  "list_reply (fs_c (NewFS example_conn)) ''/x'' = Inr [example_entry ''z'' EntryTypeFile 1]"
  "list_reply (fs_c (NewFS example_conn)) ''/dup''
     = Inr [example_entry ''a'' EntryTypeFile 1, example_entry ''a'' EntryTypeFile 2]"
  "list_reply (fs_c (NewFS example_conn)) ''a'' = Inr [example_entry ''b'' EntryTypeFolder 0]"
  "list_reply (fs_c (NewFS example_conn)) ''a/b'' = Inr []"
  "list_reply (fs_c (NewFS example_conn)) ''/'' = Inl (ClientError ''550 no such directory'')"
  "list_reply (fs_c (NewFS example_conn)) ''/gone'' = Inl (ClientError ''550 no such directory'')"
  "sent (fs_c (NewFS example_conn)) = []"
  by (simp_all add: NewFS_def example_conn_def)

theorem FS_Stat_resolves_witness:
  "(\<exists>fi. fst (FS_Stat (NewFS example_conn) ''/pub/a.txt'') = Inr fi \<and> fileinfo_Name fi = ''a.txt'')
   \<and> (\<nexists>fi. fst (FS_Stat (NewFS example_conn) ''/pub/A.TXT'') = Inr fi)
   \<and> sent (fs_c (snd (FS_Stat (NewFS example_conn) ''/pub/a.txt''))) = [CmdList ''/pub'']"
  using FS_Stat_resolves [of "NewFS example_conn" "''/pub/a.txt''"]
    FS_Stat_resolves [of "NewFS example_conn" "''/pub/A.TXT''"]
  by (simp add: ex_dir example_lists example_entry_def) blast

text \<open>
  C3. When the parent listing succeeds and holds no entry named as the base name,
  \<^verbatim>\<open>Open\<close> fails with the not-found error of the resolver (wrapped once), and the only
  command sent is the list of the parent: no retrieve. In every case the commands
  \<^verbatim>\<open>Open\<close> sends are the list of the parent and then, only if the listing holds an entry
  of that name, the retrieve of the path.
\<close>

theorem FS_Open_retrieves_after_resolving:
  "(\<forall>entries. list_reply (fs_c fs) (path_Dir name) = Inr entries
        \<and> path_Base name \<notin> Name ` set entries \<longrightarrow>
      fst (FS_Open fs name) = Inl (Wrap (Errorf (path_Base name) entries) [])
      \<and> sent (fs_c (snd (FS_Open fs name))) = sent (fs_c fs) @ [CmdList (path_Dir name)])
   \<and> sent (fs_c (snd (FS_Open fs name))) =
       sent (fs_c fs) @ CmdList (path_Dir name) #
         (if \<exists>entries. list_reply (fs_c fs) (path_Dir name) = Inr entries
               \<and> path_Base name \<in> Name ` set entries
          then [CmdRetr name] else [])"
proof (cases "list_reply (fs_c fs) (path_Dir name)")
  case (Inl err)
  then show ?thesis
    by (simp add: FS_Open_def FS_getEntry_list_fails)
next
  case (Inr entries)
  show ?thesis
  proof (cases "getEntry_scan entries (path_Base name)")
    case None
    with Inr show ?thesis
      using getEntry_scan_None [of entries "path_Base name"]
      by (simp add: FS_Open_def FS_getEntry_listed)
  next
    case (Some e)
    have "path_Base name \<in> Name ` set entries"
      using getEntry_scan_None [of entries "path_Base name"] Some by auto
    with Inr Some show ?thesis
      by (auto simp: FS_Open_def FS_getEntry_listed ServerConn_Retr_def split: sum.splits)
  qed
qed

lemma ex_dir2: "path_Dir ''/x/y'' = ''/x''" "path_Base ''/x/y'' = ''y''"
  "path_Dir ''/gone/y'' = ''/gone''" "path_Base ''/gone/y'' = ''y''"
  by (simp_all add: path_Dir_def path_Base_def path_Split_def path_Clean_def
        Clean_backtrack.simps strip_trailing_slashes.simps Let_def)

theorem FS_Open_retrieves_after_resolving_witness:
  "fst (FS_Open (NewFS example_conn) ''/x/y'')
     = Inl (Wrap (Errorf ''y'' [example_entry ''z'' EntryTypeFile 1]) [])
   \<and> sent (fs_c (snd (FS_Open (NewFS example_conn) ''/x/y''))) = [CmdList ''/x'']
   \<and> sent (fs_c (snd (FS_Open (NewFS example_conn) ''/pub/a.txt'')))
     = [CmdList ''/pub'', CmdRetr ''/pub/a.txt'']"
  using FS_Open_retrieves_after_resolving [of "NewFS example_conn" "''/x/y''"]
    FS_Open_retrieves_after_resolving [of "NewFS example_conn" "''/pub/a.txt''"]
  by (simp add: ex_dir ex_dir2 example_lists example_entry_def)

text \<open>
  C7. When the parent listing holds no entry named as the base name, \<^verbatim>\<open>Stat\<close> and
  \<^verbatim>\<open>Open\<close> return the error built by \<^verbatim>\<open>errors.Errorf("%s %+v", base, derefed)\<close>, wrapped
  once with an empty message: its cause carries the base name that was looked for and
  the whole list of entries that the parent listing returned, in its order.
\<close>

theorem not_found_carries_name_and_siblings:
  assumes "list_reply (fs_c fs) (path_Dir name) = Inr entries"
    and "path_Base name \<notin> Name ` set entries"
  shows "fst (FS_Stat fs name) = Inl (Wrap (Errorf (path_Base name) entries) [])
     \<and> fst (FS_Open fs name) = Inl (Wrap (Errorf (path_Base name) entries) [])
     \<and> Cause (Wrap (Errorf (path_Base name) entries) []) = Errorf (path_Base name) entries"
  using assms getEntry_scan_None [of entries "path_Base name"]
  by (simp add: FS_Stat_def FS_Open_def FS_getEntry_listed)

theorem not_found_carries_name_and_siblings_witness:
  "fst (FS_Stat (NewFS example_conn) ''/x/y'')
     = Inl (Wrap (Errorf ''y'' [example_entry ''z'' EntryTypeFile 1]) [])
   \<and> fst (FS_Open (NewFS example_conn) ''/x/y'')
     = Inl (Wrap (Errorf ''y'' [example_entry ''z'' EntryTypeFile 1]) [])"
proof -
  have a: "list_reply (fs_c (NewFS example_conn)) (path_Dir ''/x/y'')
      = Inr [example_entry ''z'' EntryTypeFile 1]"
    by (simp add: ex_dir2 example_lists)
  have b: "path_Base ''/x/y'' \<notin> Name ` set [example_entry ''z'' EntryTypeFile 1]"
    by (simp add: ex_dir2 example_entry_def)
  show ?thesis
    using not_found_carries_name_and_siblings [OF a b] by (simp add: ex_dir2)
qed


lemma ex_dir3: "path_Dir ''/pub/b.txt'' = ''/pub''" "path_Base ''/pub/b.txt'' = ''b.txt''"
  by (simp_all add: path_Dir_def path_Base_def path_Split_def path_Clean_def
        Clean_backtrack.simps strip_trailing_slashes.simps Let_def)

text \<open>
  C8, as stated, fails: \<^verbatim>\<open>ReadDir\<close> wraps a failure of the listing with
  \<^verbatim>\<open>errors.Wrap(err, "")\<close>, so the directory path is not among the messages of the error
  it returns.
\<close>

theorem ReadDir_list_failure_counterexample:
  "fst (FS_ReadDir insertionSort (NewFS example_conn) ''/gone'')
     = Inl (Wrap (ClientError ''550 no such directory'') [])
   \<and> ''/gone'' \<notin> set (context_messages (Wrap (ClientError ''550 no such directory'') []))"
  by (simp add: FS_ReadDir_def ServerConn_List_def example_lists)

text \<open>
  C8, amended. When the listing fails, \<^verbatim>\<open>ReadDir\<close> returns no entries but the failure
  wrapped with an empty message; the failure stays the cause. The path is attached only
  by the resolver: when the listing of the parent fails, \<^verbatim>\<open>getEntry\<close> wraps the failure
  with the parent path as message, and \<^verbatim>\<open>Stat\<close> and \<^verbatim>\<open>Open\<close> wrap that once more with an
  empty message. A failing retrieve in \<^verbatim>\<open>Open\<close> is wrapped with an empty message.
\<close>

theorem list_failure_context:
  "(\<forall>err. list_reply (fs_c fs) name = Inl err \<longrightarrow>
       fst (FS_ReadDir sort_Slice fs name) = Inl (Wrap err [])
       \<and> context_messages (Wrap err []) = [] # context_messages err
       \<and> Cause (Wrap err []) = Cause err)
   \<and> (\<forall>err. list_reply (fs_c fs) (path_Dir name) = Inl err \<longrightarrow>
       fst (FS_getEntry fs name) = Inl (Wrap err (path_Dir name))
       \<and> fst (FS_Stat fs name) = Inl (Wrap (Wrap err (path_Dir name)) [])
       \<and> fst (FS_Open fs name) = Inl (Wrap (Wrap err (path_Dir name)) []))
   \<and> (\<forall>entries err. list_reply (fs_c fs) (path_Dir name) = Inr entries
         \<and> path_Base name \<in> Name ` set entries \<and> retr_reply (fs_c fs) name = Inl err \<longrightarrow>
       fst (FS_Open fs name) = Inl (Wrap err []))"
proof (intro conjI allI impI)
  fix entries err
  assume a: "list_reply (fs_c fs) (path_Dir name) = Inr entries
    \<and> path_Base name \<in> Name ` set entries \<and> retr_reply (fs_c fs) name = Inl err"
  then obtain e where "getEntry_scan entries (path_Base name) = Some e"
    using getEntry_scan_None [of entries "path_Base name"] by auto
  with a show "fst (FS_Open fs name) = Inl (Wrap err [])"
    by (simp add: FS_Open_def FS_getEntry_listed ServerConn_Retr_def)
qed (simp_all add: FS_ReadDir_def ServerConn_List_def FS_Stat_def FS_Open_def
       FS_getEntry_list_fails)

theorem list_failure_context_witness:
  "fst (FS_ReadDir insertionSort (NewFS example_conn) ''/gone'')
     = Inl (Wrap (ClientError ''550 no such directory'') [])
   \<and> fst (FS_Stat (NewFS example_conn) ''/gone/y'')
     = Inl (Wrap (Wrap (ClientError ''550 no such directory'') ''/gone'') [])
   \<and> fst (FS_Open (NewFS example_conn) ''/pub/b.txt'')
     = Inl (Wrap (ClientError ''550 no such file'') [])"
  using list_failure_context [of "NewFS example_conn" "''/gone''" insertionSort]
    list_failure_context [of "NewFS example_conn" "''/gone/y''" insertionSort]
    list_failure_context [of "NewFS example_conn" "''/pub/b.txt''" insertionSort]
  by (simp add: ex_dir2 ex_dir3 example_lists example_entry_def NewFS_def example_conn_def)

section \<open>Properties of ReadDir\<close>

lemma ReadDir_loop_eq:
  "ReadDir_loop entries ds =
     ds @ map (\<lambda>e. FileInfoToDirEntry (fileinfo e))
            (filter (\<lambda>e. Name e \<noteq> ''.'' \<and> Name e \<noteq> ''..'') entries)"
  by (induction entries arbitrary: ds) auto

lemma ReadDir_loop_names:
  "map DirEntry_Name (ReadDir_loop entries []) =
     filter (\<lambda>n. n \<noteq> ''.'' \<and> n \<noteq> ''..'') (map Name entries)"
  by (simp add: ReadDir_loop_eq DirEntry_Name_def FileInfoToDirEntry_def fileinfo_Name_def
      filter_map comp_def)

lemma ReadDir_loop_infos:
  "map fileInfo (ReadDir_loop entries []) =
     map fileinfo (filter (\<lambda>e. Name e \<noteq> ''.'' \<and> Name e \<noteq> ''..'') entries)"
  by (simp add: ReadDir_loop_eq FileInfoToDirEntry_def comp_def)

lemma sorted_by_Name:
  "sorted_wrt (\<lambda>a b. \<not> less_Name b a) xs \<Longrightarrow> sorted (map Name xs)"
  by (simp add: sorted_map less_Name_def not_less)

text \<open>
  Two orders of the same entries that are both sorted by name are the same list, when
  no name occurs twice.
\<close>

lemma sorted_by_Name_unique:
  assumes "sorted_wrt (\<lambda>a b. \<not> less_Name b a) xs"
    and "sorted_wrt (\<lambda>a b. \<not> less_Name b a) ys"
    and "mset xs = mset ys"
    and "distinct (map Name xs)"
  shows "xs = ys"
proof -
  have m: "mset (map Name xs) = mset (map Name ys)"
    using assms(3) by (metis mset_map)
  then have d: "distinct (map Name ys)"
    using assms(4) by (metis mset_eq_imp_distinct_iff)
  have s: "set (map Name xs) = set (map Name ys)"
    using m by (metis mset_eq_setD)
  have names: "map Name xs = map Name ys"
    using sorted_distinct_set_unique [OF sorted_by_Name [OF assms(1)] assms(4)
        sorted_by_Name [OF assms(2)] d s] .
  have "set xs = set ys" using assms(3) by (metis mset_eq_setD)
  moreover have "inj_on Name (set xs)" using assms(4) by (simp add: distinct_map)
  ultimately have "inj_on Name (set xs \<union> set ys)" by simp
  then show ?thesis using names by (simp add: inj_on_map_eq_map)
qed

text \<open>
  C2, amended. For a listing that \<^verbatim>\<open>sort.Slice\<close> sorts as it documents: the result of
  \<^verbatim>\<open>ReadDir\<close> holds no entry named \<^verbatim>\<open>.\<close> or \<^verbatim>\<open>..\<close>, whatever its type, and holds every
  other entry of the listing; its names are in lexicographic order, equal names next to
  each other. When no name occurs twice in the listing, the order is strict and the
  result is the same sequence for every order in which the server reports the entries
  (and for every sorting algorithm that meets the contract).
\<close>

theorem FS_ReadDir_filters_and_sorts:
  assumes "list_reply (fs_c fsys) name = Inr entries"
    and "sorts sort_Slice entries"
  shows "\<exists>ds. fst (FS_ReadDir sort_Slice fsys name) = Inr ds
     \<and> ''.'' \<notin> set (map DirEntry_Name ds) \<and> ''..'' \<notin> set (map DirEntry_Name ds)
     \<and> mset (map fileInfo ds)
        = mset (map fileinfo (filter (\<lambda>e. Name e \<noteq> ''.'' \<and> Name e \<noteq> ''..'') entries))
     \<and> sorted (map DirEntry_Name ds)
     \<and> (distinct (map Name entries) \<longrightarrow>
          sorted_wrt (<) (map DirEntry_Name ds)
          \<and> (\<forall>sort_Slice' fsys' name' entries'.
                list_reply (fs_c fsys') name' = Inr entries' \<and> mset entries' = mset entries
                \<and> sorts sort_Slice' entries' \<longrightarrow>
                fst (FS_ReadDir sort_Slice' fsys' name') = Inr ds))"
proof -
  let ?xs = "sort_Slice less_Name entries"
  let ?ds = "ReadDir_loop ?xs []"
  have perm: "mset ?xs = mset entries"
    and srt: "sorted_wrt (\<lambda>a b. \<not> less_Name b a) ?xs"
    using assms(2) by (simp_all add: sorts_def)
  have res: "fst (FS_ReadDir sort_Slice fsys name) = Inr ?ds"
    using assms(1) by (simp add: FS_ReadDir_def ServerConn_List_def)
  have nodot: "''.'' \<notin> set (map DirEntry_Name ?ds)" "''..'' \<notin> set (map DirEntry_Name ?ds)"
    by (simp_all add: ReadDir_loop_names)
  have kept: "mset (map fileInfo ?ds)
      = mset (map fileinfo (filter (\<lambda>e. Name e \<noteq> ''.'' \<and> Name e \<noteq> ''..'') entries))"
  proof -
    let ?P = "\<lambda>e. Name e \<noteq> ''.'' \<and> Name e \<noteq> ''..''"
    have "mset (map fileinfo (filter ?P ?xs)) = image_mset fileinfo (filter_mset ?P (mset ?xs))"
      by simp
    also have "\<dots> = image_mset fileinfo (filter_mset ?P (mset entries))"
      by (simp only: perm)
    also have "\<dots> = mset (map fileinfo (filter ?P entries))"
      by simp
    finally show ?thesis by (simp only: ReadDir_loop_infos)
  qed
  have sorted_names: "sorted (map DirEntry_Name ?ds)"
    using sorted_by_Name [OF srt] by (simp add: ReadDir_loop_names sorted_wrt_filter)
  have strict: "sorted_wrt (<) (map DirEntry_Name ?ds)" if d: "distinct (map Name entries)"
  proof -
    have "mset (map Name ?xs) = mset (map Name entries)" using perm by (metis mset_map)
    then have "distinct (map Name ?xs)" using d by (metis mset_eq_imp_distinct_iff)
    then have "distinct (map DirEntry_Name ?ds)" by (simp add: ReadDir_loop_names)
    with sorted_names show ?thesis by (simp add: strict_sorted_iff)
  qed
  have same: "fst (FS_ReadDir sort_Slice' fsys' name') = Inr ?ds"
    if d: "distinct (map Name entries)"
      and l: "list_reply (fs_c fsys') name' = Inr entries'"
      and p: "mset entries' = mset entries"
      and s: "sorts sort_Slice' entries'"
    for sort_Slice' fsys' name' entries'
  proof -
    let ?ys = "sort_Slice' less_Name entries'"
    have perm': "mset ?ys = mset entries'"
      and srt': "sorted_wrt (\<lambda>a b. \<not> less_Name b a) ?ys"
      using s by (simp_all add: sorts_def)
    have "mset (map Name ?xs) = mset (map Name entries)" using perm by (metis mset_map)
    then have dx: "distinct (map Name ?xs)" using d by (metis mset_eq_imp_distinct_iff)
    have "?xs = ?ys"
      using sorted_by_Name_unique [OF srt srt' _ dx] perm perm' p by simp
    then show ?thesis
      using l by (simp add: FS_ReadDir_def ServerConn_List_def)
  qed
  show ?thesis
    using res nodot kept sorted_names strict same by blast
qed


text \<open>
  C2, as stated, fails on a listing that reports a name twice: the two entries named
  \<^verbatim>\<open>a\<close> stay in the result, so the names are not strictly ordered, and the insertion
  sort that \<^verbatim>\<open>sort.Slice\<close> runs on a slice of two leaves them in the order of the listing,
  so the other server-reported order of the same entries gives another sequence.
\<close>

theorem ReadDir_duplicate_names_counterexample:
  "fst (FS_ReadDir insertionSort (NewFS example_conn) ''/dup'')
     = Inr [dirInfo (fileinfo (example_entry ''a'' EntryTypeFile 1)),
            dirInfo (fileinfo (example_entry ''a'' EntryTypeFile 2))]
   \<and> \<not> sorted_wrt (<) (map DirEntry_Name
          [dirInfo (fileinfo (example_entry ''a'' EntryTypeFile 1)),
           dirInfo (fileinfo (example_entry ''a'' EntryTypeFile 2))])
   \<and> fst (FS_ReadDir insertionSort (NewFS example_conn_reordered) ''/dup'')
     = Inr [dirInfo (fileinfo (example_entry ''a'' EntryTypeFile 2)),
            dirInfo (fileinfo (example_entry ''a'' EntryTypeFile 1))]
   \<and> fst (FS_ReadDir insertionSort (NewFS example_conn_reordered) ''/dup'')
     \<noteq> fst (FS_ReadDir insertionSort (NewFS example_conn) ''/dup'')"
  by (simp add: FS_ReadDir_def ServerConn_List_def NewFS_def example_conn_def
      example_conn_reordered_def insertionSort_def insertionSort_inner.simps less_Name_def
      example_entry_def FileInfoToDirEntry_def DirEntry_Name_def fileinfo_Name_def)

lemma example_sorts:
  "sorts insertionSort
     [example_entry ''.'' EntryTypeFolder 0, example_entry ''..'' EntryTypeFolder 0,
      example_entry ''b.txt'' EntryTypeFile 7, example_entry ''a.txt'' EntryTypeFile 42]"
  by code_simp

theorem FS_ReadDir_filters_and_sorts_witness:
  "fst (FS_ReadDir insertionSort (NewFS example_conn) ''/pub'')
     = Inr [dirInfo (fileinfo (example_entry ''a.txt'' EntryTypeFile 42)),
            dirInfo (fileinfo (example_entry ''b.txt'' EntryTypeFile 7))]
   \<and> (\<exists>ds. fst (FS_ReadDir insertionSort (NewFS example_conn) ''/pub'') = Inr ds
        \<and> ''.'' \<notin> set (map DirEntry_Name ds) \<and> ''..'' \<notin> set (map DirEntry_Name ds)
        \<and> sorted_wrt (<) (map DirEntry_Name ds))"
proof -
  have ev: "fst (FS_ReadDir insertionSort (NewFS example_conn) ''/pub'')
     = Inr [dirInfo (fileinfo (example_entry ''a.txt'' EntryTypeFile 42)),
            dirInfo (fileinfo (example_entry ''b.txt'' EntryTypeFile 7))]"
    by code_simp
  have d: "distinct (map Name
     [example_entry ''.'' EntryTypeFolder 0, example_entry ''..'' EntryTypeFolder 0,
      example_entry ''b.txt'' EntryTypeFile 7, example_entry ''a.txt'' EntryTypeFile 42])"
    by (simp add: example_entry_def)
  show ?thesis
    using FS_ReadDir_filters_and_sorts [OF example_lists(1) example_sorts] ev d
    by blast
qed

section \<open>Properties of path resolution\<close>

text \<open>
  A slash in the input is a point where \<^verbatim>\<open>Clean\<close> starts afresh: its loop reads what
  follows the slash from the state that the part before the slash has left.
\<close>

lemma takeWhile_upto_slash:
  "takeWhile (\<lambda>x. x \<noteq> CHR ''/'') (xs @ CHR ''/'' # ys) = takeWhile (\<lambda>x. x \<noteq> CHR ''/'') xs"
  by (induction xs) auto

lemma dropWhile_upto_slash:
  "dropWhile (\<lambda>x. x \<noteq> CHR ''/'') (xs @ CHR ''/'' # ys)
     = dropWhile (\<lambda>x. x \<noteq> CHR ''/'') xs @ CHR ''/'' # ys"
  by (induction xs) auto

lemma Clean_loop_slash:
  "Clean_loop rooted st (xs @ CHR ''/'' # ys) = Clean_loop rooted (Clean_loop rooted st xs) ys"
proof (induction rooted st xs rule: Clean_loop.induct)
  case (1 rooted out dotdot)
  show ?case by simp
next
  case (2 rooted out dotdot c rest)
  let ?zs = "CHR ''/'' # ys"
  have hd1: "(rest @ ?zs = [] \<or> hd (rest @ ?zs) = CHR ''/'') = (rest = [] \<or> hd rest = CHR ''/'')"
    by (cases rest) auto
  have hd2: "(rest @ ?zs \<noteq> [] \<and> hd (rest @ ?zs) = CHR ''.''
               \<and> (tl (rest @ ?zs) = [] \<or> hd (tl (rest @ ?zs)) = CHR ''/''))
           = (rest \<noteq> [] \<and> hd rest = CHR ''.'' \<and> (tl rest = [] \<or> hd (tl rest) = CHR ''/''))"
    by (cases rest; cases "tl rest") auto
  have tl1: "rest \<noteq> [] \<Longrightarrow> tl (rest @ ?zs) = tl rest @ ?zs"
    by (cases rest) auto
  show ?case
    using "2.IH" 
    apply (simp only: append_Cons Clean_loop.simps(2) hd1 hd2)
    apply (auto simp: tl1 takeWhile_upto_slash dropWhile_upto_slash simp del: Clean_loop.simps)
    done
qed


lemma LastIndexByteString_absent: "c \<notin> set b \<Longrightarrow> LastIndexByteString b c = - 1"
  by (induction b) auto

lemma LastIndexByteString_last:
  "c \<notin> set b \<Longrightarrow> LastIndexByteString (xs @ c # b) c = int (length xs)"
  by (induction xs) (auto simp: LastIndexByteString_absent)

lemma nat_int_Suc: "nat (int n + 1) = Suc n"
  by linarith

lemma path_Split_last_slash:
  "CHR ''/'' \<notin> set b \<Longrightarrow> path_Split (xs @ CHR ''/'' # b) = (xs @ ''/'', b)"
  by (simp add: path_Split_def LastIndexByteString_last Let_def nat_int_Suc)

lemma path_Split_dir:
  assumes "e = [] \<or> last e = CHR ''/''" and "CHR ''/'' \<notin> set b"
  shows "path_Split (e @ b) = (e, b)"
proof (cases "e = []")
  case True
  then show ?thesis
    using assms(2) by (simp add: path_Split_def LastIndexByteString_absent)
next
  case False
  with assms(1) obtain e' where e': "e = e' @ ''/''"
    by (metis append_butlast_last_id)
  show ?thesis
    unfolding e' using path_Split_last_slash [OF assms(2), of e'] by simp
qed

lemma strip_trailing_slashes_none:
  "p \<noteq> [] \<Longrightarrow> last p \<noteq> CHR ''/'' \<Longrightarrow> strip_trailing_slashes p = p"
  by (simp add: strip_trailing_slashes.simps [of p] last_conv_nth)

lemma path_Base_last_element:
  assumes "e = [] \<or> last e = CHR ''/''" and "b \<noteq> []" and "CHR ''/'' \<notin> set b"
  shows "path_Base (e @ b) = b"
proof -
  have "last (e @ b) \<noteq> CHR ''/''"
    using assms(2,3) by (metis last_appendR last_in_set)
  then have strip: "strip_trailing_slashes (e @ b) = e @ b"
    using assms(2) by (simp add: strip_trailing_slashes_none)
  show ?thesis
  proof (cases "e = []")
    case True
    with strip assms(2,3) show ?thesis
      by (simp add: path_Base_def LastIndexByteString_absent Let_def)
  next
    case False
    with assms(1) have "e = butlast e @ ''/''"
      by (metis append_butlast_last_id)
    then have eb: "e @ b = butlast e @ CHR ''/'' # b"
      by (metis append_Cons append_Nil append_assoc)
    have "path_Base (butlast e @ CHR ''/'' # b) = b"
      using strip assms(2,3) unfolding eb
      by (simp add: path_Base_def LastIndexByteString_last Let_def nat_int_Suc)
    then show ?thesis by (simp only: eb)
  qed
qed

lemma Clean_loop_skip_dot:
  "Clean_loop r st (ys @ ''/./'' @ zs) = Clean_loop r st (ys @ ''/'' @ zs)"
proof -
  have "Clean_loop r st' (CHR ''.'' # CHR ''/'' # zs) = Clean_loop r st' zs" for st'
    by (cases st') simp
  then show ?thesis
    using Clean_loop_slash [of r st ys "''./'' @ zs"] Clean_loop_slash [of r st ys zs]
    by simp
qed

lemma Clean_loop_skip_slash:
  "Clean_loop r st (ys @ ''//'' @ zs) = Clean_loop r st (ys @ ''/'' @ zs)"
proof -
  have "Clean_loop r st' (CHR ''/'' # zs) = Clean_loop r st' zs" for st'
    by (cases st') simp
  then show ?thesis
    using Clean_loop_slash [of r st ys "''/'' @ zs"] Clean_loop_slash [of r st ys zs]
    by simp
qed

lemma path_Clean_skip_dot: "path_Clean (d @ ''/./'' @ zs) = path_Clean (d @ ''/'' @ zs)"
proof (cases d)
  case Nil
  then show ?thesis by (simp add: path_Clean_def)
next
  case (Cons x d')
  from Clean_loop_skip_dot [of _ _ "x # d'" zs] Clean_loop_skip_dot [of _ _ d' zs] Cons
  show ?thesis
    by (simp add: path_Clean_def Let_def del: Clean_loop.simps)
qed

lemma path_Clean_skip_slash: "path_Clean (d @ ''//'' @ zs) = path_Clean (d @ ''/'' @ zs)"
proof (cases d)
  case Nil
  then show ?thesis by (simp add: path_Clean_def)
next
  case (Cons x d')
  from Clean_loop_skip_slash [of _ _ "x # d'" zs] Clean_loop_skip_slash [of _ _ d' zs] Cons
  show ?thesis
    by (simp add: path_Clean_def Let_def del: Clean_loop.simps)
qed

lemma path_Clean_leading_dot:
  "zs = [] \<or> hd zs \<noteq> CHR ''/'' \<Longrightarrow> path_Clean (''./'' @ zs) = path_Clean zs"
  by (cases zs) (simp_all add: path_Clean_def)

lemma path_Dir_redundant:
  assumes "CHR ''/'' \<notin> set b" and "m = [] \<or> last m = CHR ''/''"
  shows "path_Dir (d @ ''/./'' @ m @ b) = path_Dir (d @ ''/'' @ m @ b)"
    and "path_Dir (d @ ''//'' @ m @ b) = path_Dir (d @ ''/'' @ m @ b)"
    and "m = [] \<or> hd m \<noteq> CHR ''/'' \<Longrightarrow> path_Dir (''./'' @ m @ b) = path_Dir (m @ b)"
proof -
  have a: "path_Split ((d @ ''/./'' @ m) @ b) = (d @ ''/./'' @ m, b)"
    using assms by (intro path_Split_dir) auto
  have b: "path_Split ((d @ ''/'' @ m) @ b) = (d @ ''/'' @ m, b)"
    using assms by (intro path_Split_dir) auto
  have c: "path_Split ((d @ ''//'' @ m) @ b) = (d @ ''//'' @ m, b)"
    using assms by (intro path_Split_dir) auto
  have e: "path_Split ((''./'' @ m) @ b) = (''./'' @ m, b)"
    using assms by (intro path_Split_dir) auto
  have f: "path_Split (m @ b) = (m, b)"
    using assms by (intro path_Split_dir) auto
  show "path_Dir (d @ ''/./'' @ m @ b) = path_Dir (d @ ''/'' @ m @ b)"
    using a b path_Clean_skip_dot [of d m] by (simp add: path_Dir_def)
  show "path_Dir (d @ ''//'' @ m @ b) = path_Dir (d @ ''/'' @ m @ b)"
    using b c path_Clean_skip_slash [of d m] by (simp add: path_Dir_def)
  show "path_Dir (''./'' @ m @ b) = path_Dir (m @ b)" if "m = [] \<or> hd m \<noteq> CHR ''/''"
    using e f path_Clean_leading_dot [OF that] by (simp add: path_Dir_def)
qed

lemma path_Base_redundant:
  assumes "b \<noteq> []" and "CHR ''/'' \<notin> set b" and "m = [] \<or> last m = CHR ''/''"
  shows "path_Base (d @ ''/./'' @ m @ b) = b" and "path_Base (d @ ''//'' @ m @ b) = b"
    and "path_Base (d @ ''/'' @ m @ b) = b" and "path_Base (''./'' @ m @ b) = b"
    and "path_Base (m @ b) = b"
proof -
  have "path_Base ((d @ ''/./'' @ m) @ b) = b"
    using assms by (intro path_Base_last_element) auto
  then show "path_Base (d @ ''/./'' @ m @ b) = b" by simp
  have "path_Base ((d @ ''//'' @ m) @ b) = b"
    using assms by (intro path_Base_last_element) auto
  then show "path_Base (d @ ''//'' @ m @ b) = b" by simp
  have "path_Base ((d @ ''/'' @ m) @ b) = b"
    using assms by (intro path_Base_last_element) auto
  then show "path_Base (d @ ''/'' @ m @ b) = b" by simp
  have "path_Base ((''./'' @ m) @ b) = b"
    using assms by (intro path_Base_last_element) auto
  then show "path_Base (''./'' @ m @ b) = b" by simp
  show "path_Base (m @ b) = b"
    using assms by (intro path_Base_last_element) auto
qed

lemma FS_Stat_by_Dir_Base:
  assumes d: "path_Dir name' = path_Dir name" and b: "path_Base name' = path_Base name"
  shows "FS_getEntry fs name' = FS_getEntry fs name \<and> FS_Stat fs name' = FS_Stat fs name"
  unfolding FS_Stat_def FS_getEntry_def d b by simp

lemma FS_getEntry_replies:
  "retr_reply (fs_c (snd (FS_getEntry fs name))) = retr_reply (fs_c fs)"
  by (cases "list_reply (fs_c fs) (path_Dir name)")
     (simp_all add: FS_getEntry_list_fails FS_getEntry_listed)

lemma root_dir: "path_Dir ''/'' = ''/''" "path_Base ''/'' = ''/''"
  "path_Dir ''a/b/'' = ''a/b''" "path_Base ''a/b/'' = ''b''"
  "path_Dir ''a/b'' = ''a''" "path_Base ''a/b'' = ''b''"
  "path_Dir ''a/b/.'' = ''a/b''" "path_Base ''a/b/.'' = ''.''"
  by (simp_all add: path_Dir_def path_Base_def path_Split_def path_Clean_def
        Clean_backtrack.simps strip_trailing_slashes.simps Let_def)

text \<open>
  C9, as stated, fails for a trailing slash and for a trailing \<^verbatim>\<open>.\<close> segment:
  \<^verbatim>\<open>path.Dir("a/b/")\<close> is \<^verbatim>\<open>a/b\<close>, not \<^verbatim>\<open>a\<close>, so \<^verbatim>\<open>Stat("a/b/")\<close> looks for \<^verbatim>\<open>b\<close> inside
  \<^verbatim>\<open>a/b\<close>. On the example session \<^verbatim>\<open>a/b\<close> is an empty directory: \<^verbatim>\<open>Stat("a/b")\<close> finds it,
  \<^verbatim>\<open>Stat("a/b/")\<close> and \<^verbatim>\<open>Stat("a/b/.")\<close> fail.
\<close>

theorem trailing_slash_counterexample:
  "path_Dir ''a/b/'' = ''a/b'' \<and> path_Dir ''a/b'' = ''a''
   \<and> fst (FS_Stat (NewFS example_conn) ''a/b'')
       = Inr (fileinfo (example_entry ''b'' EntryTypeFolder 0))
   \<and> fst (FS_Stat (NewFS example_conn) ''a/b/'') = Inl (Wrap (Errorf ''b'' []) [])
   \<and> fst (FS_Stat (NewFS example_conn) ''a/b/.'') = Inl (Wrap (Errorf ''.'' []) [])"
  by (simp add: root_dir FS_Stat_def FS_getEntry_listed example_lists example_entry_def)

text \<open>
  C9, amended. \<^verbatim>\<open>getEntry\<close> lists \<^verbatim>\<open>path.Dir(name)\<close> and scans the listing for
  \<^verbatim>\<open>path.Base(name)\<close>; \<^verbatim>\<open>Stat\<close> and \<^verbatim>\<open>Open\<close> resolve by it. So two names with the same
  \<^verbatim>\<open>Dir\<close> and the same \<^verbatim>\<open>Base\<close> resolve alike, with the same command sent. A \<^verbatim>\<open>.\<close>
  segment or a doubled slash anywhere before the last element changes neither (\<open>b\<close> is
  the last element, \<open>m\<close> the elements between), nor does a leading \<^verbatim>\<open>./\<close>. A trailing
  slash does: for \<^verbatim>\<open>a/b/\<close> the parent listed is \<^verbatim>\<open>a/b\<close> and the base is \<^verbatim>\<open>b\<close>. For the root
  path \<^verbatim>\<open>/\<close> both the parent listed and the base name looked for are \<^verbatim>\<open>/\<close>, so
  \<^verbatim>\<open>Stat("/")\<close> succeeds exactly when the listing of \<^verbatim>\<open>/\<close> holds an entry named \<^verbatim>\<open>/\<close>.
\<close>

theorem resolution_by_Dir_and_Base:
  "fst (FS_getEntry fs name) =
     (case list_reply (fs_c fs) (path_Dir name) of
        Inl err \<Rightarrow> Inl (Wrap err (path_Dir name))
      | Inr entries \<Rightarrow>
          (case getEntry_scan entries (path_Base name) of
             None \<Rightarrow> Inl (Errorf (path_Base name) entries)
           | Some e \<Rightarrow> Inr e))
   \<and> fst (FS_Stat fs name) = map_sum (\<lambda>err. Wrap err []) fileinfo (fst (FS_getEntry fs name))
   \<and> fst (FS_Open fs name)
       = (case fst (FS_getEntry fs name) of
            Inl err \<Rightarrow> Inl (Wrap err [])
          | Inr e \<Rightarrow> map_sum (\<lambda>err. Wrap err []) (\<lambda>r. \<lparr>info = fileinfo e, resp = r\<rparr>)
                      (retr_reply (fs_c fs) name))
   \<and> (path_Dir name' = path_Dir name \<and> path_Base name' = path_Base name \<longrightarrow>
        FS_getEntry fs name' = FS_getEntry fs name \<and> FS_Stat fs name' = FS_Stat fs name)
   \<and> (b \<noteq> [] \<and> CHR ''/'' \<notin> set b \<and> (m = [] \<or> last m = CHR ''/'') \<longrightarrow>
        FS_Stat fs (d @ ''/./'' @ m @ b) = FS_Stat fs (d @ ''/'' @ m @ b)
        \<and> FS_Stat fs (d @ ''//'' @ m @ b) = FS_Stat fs (d @ ''/'' @ m @ b)
        \<and> (m = [] \<or> hd m \<noteq> CHR ''/'' \<longrightarrow>
             FS_Stat fs (''./'' @ m @ b) = FS_Stat fs (m @ b)))
   \<and> path_Dir ''a/b/'' = ''a/b'' \<and> path_Base ''a/b/'' = ''b''
   \<and> path_Dir ''/'' = ''/'' \<and> path_Base ''/'' = ''/''
   \<and> ((\<exists>fi. fst (FS_Stat fs ''/'') = Inr fi) \<longleftrightarrow>
        (\<exists>entries. list_reply (fs_c fs) ''/'' = Inr entries \<and> ''/'' \<in> Name ` set entries))"
proof -
  have res: "fst (FS_getEntry fs name) =
     (case list_reply (fs_c fs) (path_Dir name) of
        Inl err \<Rightarrow> Inl (Wrap err (path_Dir name))
      | Inr entries \<Rightarrow>
          (case getEntry_scan entries (path_Base name) of
             None \<Rightarrow> Inl (Errorf (path_Base name) entries)
           | Some e \<Rightarrow> Inr e))"
    by (cases "list_reply (fs_c fs) (path_Dir name)")
       (simp_all add: FS_getEntry_list_fails FS_getEntry_listed split: option.splits)
  have stat: "fst (FS_Stat fs name)
      = map_sum (\<lambda>err. Wrap err []) fileinfo (fst (FS_getEntry fs name))"
    by (cases "FS_getEntry fs name"; cases "fst (FS_getEntry fs name)")
       (simp_all add: FS_Stat_def)
  have opn: "fst (FS_Open fs name)
       = (case fst (FS_getEntry fs name) of
            Inl err \<Rightarrow> Inl (Wrap err [])
          | Inr e \<Rightarrow> map_sum (\<lambda>err. Wrap err []) (\<lambda>r. \<lparr>info = fileinfo e, resp = r\<rparr>)
                      (retr_reply (fs_c fs) name))"
    using FS_getEntry_replies [of fs name]
    by (cases "FS_getEntry fs name"; cases "fst (FS_getEntry fs name)";
        cases "retr_reply (fs_c fs) name")
       (simp_all add: FS_Open_def ServerConn_Retr_def)
  have red: "FS_Stat fs (d @ ''/./'' @ m @ b) = FS_Stat fs (d @ ''/'' @ m @ b)
        \<and> FS_Stat fs (d @ ''//'' @ m @ b) = FS_Stat fs (d @ ''/'' @ m @ b)
        \<and> (m = [] \<or> hd m \<noteq> CHR ''/'' \<longrightarrow>
             FS_Stat fs (''./'' @ m @ b) = FS_Stat fs (m @ b))"
    if h: "b \<noteq> [] \<and> CHR ''/'' \<notin> set b \<and> (m = [] \<or> last m = CHR ''/'')"
  proof -
    from h have nb: "b \<noteq> []" and ns: "CHR ''/'' \<notin> set b"
      and lm: "m = [] \<or> last m = CHR ''/''" by simp_all
    note dir = path_Dir_redundant [OF ns lm]
    note base = path_Base_redundant [OF nb ns lm]
    show ?thesis
      using FS_Stat_by_Dir_Base [of "d @ ''/./'' @ m @ b" "d @ ''/'' @ m @ b" fs]
        FS_Stat_by_Dir_Base [of "d @ ''//'' @ m @ b" "d @ ''/'' @ m @ b" fs]
        FS_Stat_by_Dir_Base [of "''./'' @ m @ b" "m @ b" fs]
        dir base
      by simp
  qed
  have root: "(\<exists>fi. fst (FS_Stat fs ''/'') = Inr fi) \<longleftrightarrow>
        (\<exists>entries. list_reply (fs_c fs) ''/'' = Inr entries \<and> ''/'' \<in> Name ` set entries)"
  proof (cases "list_reply (fs_c fs) ''/''")
    case (Inl err)
    then show ?thesis by (simp add: FS_Stat_def FS_getEntry_list_fails root_dir)
  next
    case (Inr entries)
    then show ?thesis
      using getEntry_scan_None [of entries "''/''"]
      by (cases "getEntry_scan entries ''/''")
         (simp_all add: FS_Stat_def FS_getEntry_listed root_dir)
  qed
  show ?thesis
    using res stat opn red root FS_Stat_by_Dir_Base [of name' name fs]
    by (simp add: root_dir)
qed


theorem resolution_by_Dir_and_Base_witness:
  "FS_Stat (NewFS example_conn) ''a/./b'' = FS_Stat (NewFS example_conn) ''a/b''
   \<and> FS_Stat (NewFS example_conn) ''a//b'' = FS_Stat (NewFS example_conn) ''a/b''
   \<and> fst (FS_Stat (NewFS example_conn) ''a/b'')
       = Inr (fileinfo (example_entry ''b'' EntryTypeFolder 0))
   \<and> (\<nexists>fi. fst (FS_Stat (NewFS example_conn) ''/'') = Inr fi)"
  using resolution_by_Dir_and_Base [of "NewFS example_conn" "''a/b''" "''a/b''" "''b''" "[]" "''a''"]
  by (simp add: root_dir example_lists example_entry_def)

end
